theory Spec2Isabelle
  imports Main
begin

section \<open>Page text and the regular expressions of app.py\<close>

text \<open>
  A Python \<open>str\<close> is a sequence of Unicode code points. The recognition patterns of
  app.py are Arabic, so page text is a list of code points and not an 8-bit \<open>string\<close>.
  Product names, file names and the other ASCII-only strings stay \<open>string\<close>s.
\<close>

type_synonym codepoint = nat
type_synonym str = "codepoint list"

definition ascii :: "string \<Rightarrow> str" where
  "ascii s = map of_char s"

subsection \<open>Character classes of \<open>re\<close> on \<open>str\<close> patterns\<close>

text \<open>
  \<open>\s\<close> on a \<open>str\<close> pattern is Unicode white space: the code points for which
  \<open>str.isspace\<close> holds.
\<close>

definition whitespace_table :: "codepoint list" where
  "whitespace_table =
     [9, 10, 11, 12, 13, 28, 29, 30, 31, 32, 133, 160, 5760,
      8192, 8193, 8194, 8195, 8196, 8197, 8198, 8199, 8200, 8201, 8202,
      8232, 8233, 8239, 8287, 12288]"

definition is_space :: "codepoint \<Rightarrow> bool" where
  "is_space c = (c \<in> set whitespace_table)"

text \<open>
  \<open>\d\<close> on a \<open>str\<close> pattern is any Unicode decimal digit (category Nd), and \<open>int\<close>
  reads every one of them with its decimal value. The digits come in runs of ten
  consecutive code points; the table holds the code point of the zero of each run
  (Unicode 14, the database of the CPython 3.11 the program supports): ASCII at 48,
  Arabic-Indic at 1632, Extended Arabic-Indic at 1776, and so on.
\<close>

definition digit_zeros :: "codepoint list" where
  "digit_zeros =
     [48, 1632, 1776, 1984, 2406, 2534, 2662, 2790, 2918, 3046, 3174, 3302, 3430,
      3558, 3664, 3792, 3872, 4160, 4240, 6112, 6160, 6470, 6608, 6784, 6800, 6992,
      7088, 7232, 7248, 42528, 43216, 43264, 43472, 43504, 43600, 44016, 65296,
      66720, 68912, 69734, 69872, 69942, 70096, 70384, 70736, 70864, 71248, 71360,
      71472, 71904, 72016, 72784, 73040, 73120, 92768, 92864, 93008, 120782,
      120792, 120802, 120812, 120822, 123200, 123632, 125264, 130032]"

definition digit_value :: "codepoint \<Rightarrow> nat option" where
  "digit_value c =
     (case find (\<lambda>z. z \<le> c \<and> c < z + 10) digit_zeros of
        None \<Rightarrow> None
      | Some z \<Rightarrow> Some (c - z))"

definition is_digit :: "codepoint \<Rightarrow> bool" where
  "is_digit c = (digit_value c \<noteq> None)"

text \<open>
  \<open>re.IGNORECASE\<close> compares the lower-cased text character with the lower-cased pattern
  character, and in addition knows a few pairs that lower-casing does not relate. The
  patterns of app.py consist of ASCII characters and of Arabic letters, which have no
  case. \<open>sre_lower\<close> is the lower-case mapping on the code points that it sends into
  ASCII (the capital letters, the dotted capital I at 304 and the Kelvin sign at 8490)
  and the identity elsewhere; \<open>sre_fixes\<close> holds the extra pairs for ASCII: dotless i
  (305) with i, long s (383) with s.
\<close>

definition sre_lower :: "codepoint \<Rightarrow> codepoint" where
  "sre_lower c =
     (if 65 \<le> c \<and> c \<le> 90 then c + 32
      else if c = 304 then 105
      else if c = 8490 then 107
      else c)"

definition sre_fixes :: "codepoint \<Rightarrow> codepoint list" where
  "sre_fixes x = (if x = 105 then [305] else if x = 115 then [383] else [])"

definition lit_ok :: "bool \<Rightarrow> codepoint \<Rightarrow> codepoint \<Rightarrow> bool" where
  "lit_ok ic x c =
     (if ic then sre_lower c = sre_lower x \<or> sre_lower c \<in> set (sre_fixes (sre_lower x))
      else c = x)"

datatype atom =
    Lit codepoint
  | Dot
  | Space
  | Digit
  | OneOf "codepoint list"

text \<open>Without \<open>re.DOTALL\<close> the dot matches every character but the newline.\<close>

fun atom_ok :: "bool \<Rightarrow> atom \<Rightarrow> codepoint \<Rightarrow> bool" where
  "atom_ok ic (Lit x) c = lit_ok ic x c"
| "atom_ok ic Dot c = (c \<noteq> 10)"
| "atom_ok ic Space c = is_space c"
| "atom_ok ic Digit c = is_digit c"
| "atom_ok ic (OneOf xs) c = list_ex (\<lambda>x. lit_ok ic x c) xs"

subsection \<open>The backtracking matcher\<close>

text \<open>
  The patterns of app.py use literals, \<open>.\<close>, \<open>\s\<close>, \<open>\d\<close>, the class \<open>[:;]\<close>, the
  greedy quantifiers \<open>*\<close>, \<open>+\<close>, \<open>?\<close> on single characters, concatenation, one
  alternation and two capturing groups.
\<close>

datatype regex =
    Eps
  | One atom
  | ZeroOrMore atom
  | OneOrMore atom
  | Optional atom
  | Cat regex regex
  | Alt regex regex
  | Group nat regex

type_synonym groups = "(nat \<times> str) list"

text \<open>
  \<open>re\<close> is a backtracking matcher: a greedy quantifier first takes as many characters as
  it can and gives them back one at a time when the rest of the pattern fails, and an
  alternation tries its left branch first. \<open>rmatch\<close> lists every way the pattern can
  match a prefix of the text, in the order in which \<open>re\<close> tries them, as the text left
  over and the groups captured; the match \<open>re\<close> reports is the head of that list.
\<close>

fun repeat_greedy :: "(codepoint \<Rightarrow> bool) \<Rightarrow> str \<Rightarrow> str list" where
  "repeat_greedy p [] = [[]]"
| "repeat_greedy p (c # s) = (if p c then repeat_greedy p s @ [c # s] else [c # s])"

fun rmatch :: "bool \<Rightarrow> regex \<Rightarrow> str \<Rightarrow> groups \<Rightarrow> (str \<times> groups) list" where
  "rmatch ic Eps s g = [(s, g)]"
| "rmatch ic (One a) s g =
     (case s of [] \<Rightarrow> [] | c # s' \<Rightarrow> if atom_ok ic a c then [(s', g)] else [])"
| "rmatch ic (ZeroOrMore a) s g = map (\<lambda>s'. (s', g)) (repeat_greedy (atom_ok ic a) s)"
| "rmatch ic (OneOrMore a) s g =
     (case s of
        [] \<Rightarrow> []
      | c # s' \<Rightarrow>
          if atom_ok ic a c then map (\<lambda>s''. (s'', g)) (repeat_greedy (atom_ok ic a) s')
          else [])"
| "rmatch ic (Optional a) s g =
     (case s of
        [] \<Rightarrow> [(s, g)]
      | c # s' \<Rightarrow> if atom_ok ic a c then [(s', g), (s, g)] else [(s, g)])"
| "rmatch ic (Cat r1 r2) s g =
     concat (map (\<lambda>(s', g'). rmatch ic r2 s' g') (rmatch ic r1 s g))"
| "rmatch ic (Alt r1 r2) s g = rmatch ic r1 s g @ rmatch ic r2 s g"
| "rmatch ic (Group n r) s g =
     map (\<lambda>(s', g'). (s', (n, take (length s - length s') s) # g')) (rmatch ic r s g)"

definition match_at :: "bool \<Rightarrow> regex \<Rightarrow> str \<Rightarrow> groups option" where
  "match_at ic r s = (case rmatch ic r s [] of [] \<Rightarrow> None | (s', g) # _ \<Rightarrow> Some g)"

text \<open>
  \<open>re.search\<close> tries every start position from the left, the end of the text included,
  and returns the first match. The flag is \<open>re.IGNORECASE\<close>.
\<close>

fun re_search :: "bool \<Rightarrow> regex \<Rightarrow> str \<Rightarrow> groups option" where
  "re_search ic r [] = match_at ic r []"
| "re_search ic r (c # s) =
     (case match_at ic r (c # s) of
        Some g \<Rightarrow> Some g
      | None \<Rightarrow> re_search ic r s)"

text \<open>\<open>m.group(n)\<close> is \<open>None\<close> when group \<open>n\<close> took no part in the match.\<close>

definition group :: "groups \<Rightarrow> nat \<Rightarrow> str option" where
  "group g n = map_of g n"

fun lits :: "str \<Rightarrow> regex" where
  "lits [] = Eps"
| "lits (c # cs) = Cat (One (Lit c)) (lits cs)"

fun cats :: "regex list \<Rightarrow> regex" where
  "cats [] = Eps"
| "cats (r # rs) = Cat r (cats rs)"

section \<open>Product identification\<close>

text \<open>
  The Arabic literals of app.py, by their code points: NUN WAW SPACE MEEM YEH WAW NUN
  for NeoMune, ALEF-WITH-HAMZA-ABOVE MEEM YEH NUN WAW LAM YEH BEH ALEF NUN for Aminoleban,
  BEH LAM YEH NUN DAL REH ALEF for Blendera, and ALEF LAM KAF MEEM YEH TEH-MARBUTA, the
  label of the quantity.
\<close>

definition neomune_ar :: str where
  "neomune_ar = [1606, 1608, 32, 1605, 1610, 1608, 1606]"

definition aminoleban_ar :: str where
  "aminoleban_ar = [1571, 1605, 1610, 1606, 1608, 1604, 1610, 1576, 1575, 1606]"

definition blendera_ar :: str where
  "blendera_ar = [1576, 1604, 1610, 1606, 1583, 1585, 1575]"

definition quantity_ar :: str where
  "quantity_ar = [1575, 1604, 1603, 1605, 1610, 1577]"

text \<open>
  \<open>PRODUCT_MAP\<close> is a dict literal; a dict iterates in insertion order, so it is the
  list of its entries in the order written.
\<close>

definition PRODUCT_MAP :: "(string \<times> regex list) list" where
  "PRODUCT_MAP =
     [(''NeoMune'',
         [lits neomune_ar,
          cats [lits (ascii ''Enteral powder''), ZeroOrMore Dot, lits (ascii ''cachectic'')]]),
      (''Aminoleban Oral'',
         [lits aminoleban_ar,
          cats [lits (ascii ''Amino Acid''), ZeroOrMore Dot, lits (ascii ''Hepatic''),
                ZeroOrMore Dot, lits (ascii ''Can'')]]),
      (''Blendera MF'',
         [lits blendera_ar,
          cats [lits (ascii ''Lactose free''), ZeroOrMore Dot,
                lits (ascii ''low cholesterol'')]])]"

text \<open>
  The two nested \<open>for\<close> loops of \<open>identify_product\<close>: the inner one over the patterns of
  an entry, the outer one over the entries; the first match returns.
\<close>

fun any_pattern :: "regex list \<Rightarrow> str \<Rightarrow> bool" where
  "any_pattern [] t = False"
| "any_pattern (p # ps) t =
     (if re_search True p t \<noteq> None then True else any_pattern ps t)"

fun identify_in :: "(string \<times> regex list) list \<Rightarrow> str \<Rightarrow> string option" where
  "identify_in [] t = None"
| "identify_in ((product, patterns) # entries) t =
     (if any_pattern patterns t then Some product else identify_in entries t)"

definition identify_product :: "str \<Rightarrow> string option" where
  "identify_product t = identify_in PRODUCT_MAP t"

section \<open>Quantity extraction\<close>

datatype py_error = TypeError | ValueError | FitzError

text \<open>
  The pattern of \<open>extract_quantity\<close>, searched without flags: the Arabic label or the
  label \<open>Quantity\<close>, then \<open>\s*[:;]?\s*\<close> and the digits; the digits after the Arabic
  label are group 1, those after the English label are group 2.
\<close>

definition quantity_re :: regex where
  "quantity_re =
     Alt (cats [lits quantity_ar,
                ZeroOrMore Space, Optional (OneOf [58, 59]), ZeroOrMore Space,
                Group 1 (OneOrMore Digit)])
         (cats [lits (ascii ''Quantity''),
                ZeroOrMore Space, Optional (OneOf [58, 59]), ZeroOrMore Space,
                Group 2 (OneOrMore Digit)])"

text \<open>
  \<open>int\<close> applied to what \<open>m.group(1)\<close> returns: \<open>int(None)\<close> raises \<open>TypeError\<close>; a
  string of decimal digits is read in base ten; a string that is no numeral raises
  \<open>ValueError\<close>, and so does one of more than 4300 digits (the interpreter's default
  limit on the conversion, \<open>sys.get_int_max_str_digits()\<close>).
\<close>

definition int_max_str_digits :: nat where
  "int_max_str_digits = 4300"

definition digits_value :: "str \<Rightarrow> nat" where
  "digits_value ds = foldl (\<lambda>acc c. 10 * acc + the (digit_value c)) 0 ds"

definition py_int :: "str option \<Rightarrow> py_error + int" where
  "py_int x =
     (case x of
        None \<Rightarrow> Inl TypeError
      | Some ds \<Rightarrow>
          if ds = [] \<or> \<not> list_all is_digit ds then Inl ValueError
          else if int_max_str_digits < length ds then Inl ValueError
          else Inr (int (digits_value ds)))"

text \<open>
  Line 116 of app.py reads \<open>return int(match.group(1) if match else 0\<close>, with one
  parenthesis missing. Closing it after \<open>group(1)\<close> or at the end of the line gives the
  same function, since \<open>int(0)\<close> is \<open>0\<close>: the integer of group 1 when the pattern
  matches, and 0 when it does not.
\<close>

definition extract_quantity :: "str \<Rightarrow> py_error + int" where
  "extract_quantity t =
     (case re_search False quantity_re t of
        None \<Rightarrow> Inr 0
      | Some m \<Rightarrow> py_int (group m 1))"

section \<open>Processing one document\<close>

text \<open>
  A page is known to the program through \<open>page.get_text()\<close> alone, which returns the text
  or raises. \<open>extract_text\<close> catches everything and returns the empty string.
\<close>

datatype page = Page (get_text: "py_error + str")

definition extract_text :: "page \<Rightarrow> str" where
  "extract_text pg = (case get_text pg of Inr t \<Rightarrow> t | Inl e \<Rightarrow> [])"

record summary_item =
  item_name :: string
  quantity :: int

record hospital_info =
  name :: string
  request_no :: string

record pdf_result =
  po_number :: string
  date :: string
  hospital_data :: hospital_info
  summary_items :: "summary_item list"
  ocr_pages :: "nat list"

text \<open>\<open>x or 10\<close> on integers: 0 is the one falsy integer.\<close>

definition py_or :: "int \<Rightarrow> int \<Rightarrow> int" where
  "py_or x d = (if x = 0 then d else x)"

text \<open>
  The page loop of \<open>process_pdf\<close>. \<open>if product:\<close> is false for \<open>None\<close> and for the empty
  string. An exception of \<open>extract_quantity\<close> leaves the loop.
\<close>

fun process_pages :: "page list \<Rightarrow> summary_item list \<Rightarrow> py_error + summary_item list" where
  "process_pages [] items = Inr items"
| "process_pages (pg # pgs) items =
     (let t = extract_text pg in
      case identify_product t of
        None \<Rightarrow> process_pages pgs items
      | Some product \<Rightarrow>
          if product = [] then process_pages pgs items
          else
            (case extract_quantity t of
               Inl e \<Rightarrow> Inl e
             | Inr q \<Rightarrow>
                 process_pages pgs
                   (items @ [\<lparr>item_name = product, quantity = py_or q 10\<rparr>])))"

text \<open>
  An uploaded file has a name, and \<open>fitz.open\<close> on its bytes either raises or gives the
  pages. The two readings of the clock are \<open>datetime.now().strftime\<close> with \<open>%H%M%S\<close> and
  with \<open>%Y-%m-%d\<close>.
\<close>

record uploaded_file =
  file_name :: string
  fitz_open :: "py_error + page list"

record stamp =
  hms :: string
  ymd :: string

text \<open>What the program shows: \<open>st.write\<close>, \<open>st.success\<close> and \<open>st.error\<close>.\<close>

datatype ui_msg =
    Analyzing string
  | Processed string
  | Failed string
  | Processing_error py_error

text \<open>
  \<open>process_pdf\<close> returns the result dict, or \<open>None\<close> after \<open>st.error\<close> when anything in
  its \<open>try\<close> block raised. Nothing is ever appended to \<open>ocr_pages\<close>.
\<close>

definition process_pdf :: "stamp \<Rightarrow> uploaded_file \<Rightarrow> pdf_result option \<times> ui_msg list" where
  "process_pdf now f =
     (case fitz_open f of
        Inl e \<Rightarrow> (None, [Processing_error e])
      | Inr doc \<Rightarrow>
          (case process_pages doc [] of
             Inl e \<Rightarrow> (None, [Processing_error e])
           | Inr items \<Rightarrow>
               (Some \<lparr>po_number = ''DEMO-'' @ hms now,
                      date = ymd now,
                      hospital_data = \<lparr>name = ''Demo Hospital'', request_no = ''DEMO-REQ''\<rparr>,
                      summary_items = items,
                      ocr_pages = []\<rparr>,
                [])))"

section \<open>Processing a batch\<close>

record processed_file =
  pf_file_name :: string
  data :: "pdf_result option"
  error :: "string option"

text \<open>
  The loop over the uploaded files. The \<open>k\<close>-th file is processed at the clock reading
  \<open>clock k\<close>. The result dict always has its five keys, so \<open>if result:\<close> tests for
  \<open>None\<close>; \<open>process_pdf\<close> raises nothing, so the \<open>except\<close> branch of the loop is never
  taken.
\<close>

fun process_files ::
  "(nat \<Rightarrow> stamp) \<Rightarrow> nat \<Rightarrow> uploaded_file list \<Rightarrow> processed_file list \<times> ui_msg list \<Rightarrow>
   processed_file list \<times> ui_msg list" where
  "process_files clock k [] acc = acc"
| "process_files clock k (f # fs) (processed_data, ui) =
     (case process_pdf (clock k) f of
        (Some result, out) \<Rightarrow>
          process_files clock (Suc k) fs
            (processed_data @ [\<lparr>pf_file_name = file_name f, data = Some result, error = None\<rparr>],
             ui @ [Analyzing (file_name f)] @ out @ [Processed (file_name f)])
      | (None, out) \<Rightarrow>
          process_files clock (Suc k) fs
            (processed_data @
               [\<lparr>pf_file_name = file_name f, data = None, error = Some ''Processing failed''\<rparr>],
             ui @ [Analyzing (file_name f)] @ out @ [Failed (file_name f)]))"

section \<open>Aggregation\<close>

text \<open>
  A dict keeps its keys in insertion order, and assigning to a key that is present keeps
  its place. The tables are built from the dicts in that order.
\<close>

fun dict_get :: "('k \<times> 'v) list \<Rightarrow> 'k \<Rightarrow> 'v \<Rightarrow> 'v" where
  "dict_get [] k d = d"
| "dict_get ((k', v) # kvs) k d = (if k' = k then v else dict_get kvs k d)"

fun dict_set :: "('k \<times> 'v) list \<Rightarrow> 'k \<Rightarrow> 'v \<Rightarrow> ('k \<times> 'v) list" where
  "dict_set [] k v = [(k, v)]"
| "dict_set ((k', v') # kvs) k v =
     (if k' = k then (k', v) # kvs else (k', v') # dict_set kvs k v)"

record hospital_row =
  PO_Number :: string
  Date :: string
  Hospital :: string
  Item :: string
  Quantity :: int
  Request_No :: string

record total_row =
  Total_Item :: string
  Total_Quantity :: int

record aggregated =
  consolidated_en_items :: "total_row list"
  multi_file_hospital_distribution :: "hospital_row list"
  hospital_dist_item_totals :: "total_row list"

text \<open>Lines 207 to 209: the items of one document are added to \<open>consolidated_items\<close>.\<close>

fun add_items :: "(string \<times> int) list \<Rightarrow> summary_item list \<Rightarrow> (string \<times> int) list" where
  "add_items consolidated_items [] = consolidated_items"
| "add_items consolidated_items (it # its) =
     add_items
       (dict_set consolidated_items (item_name it)
          (dict_get consolidated_items (item_name it) 0 + quantity it))
       its"

text \<open>
  Lines 212 to 221: one row per item of the document. The result dict has the keys
  \<open>po_number\<close>, \<open>date\<close>, \<open>name\<close> and \<open>request_no\<close>, so no \<open>get\<close> falls back to its default.
\<close>

fun add_rows :: "pdf_result \<Rightarrow> hospital_row list \<Rightarrow> summary_item list \<Rightarrow> hospital_row list" where
  "add_rows d hospital_distribution [] = hospital_distribution"
| "add_rows d hospital_distribution (it # its) =
     add_rows d
       (hospital_distribution @
          [\<lparr>PO_Number = po_number d, Date = date d, Hospital = name (hospital_data d),
            Item = item_name it, Quantity = quantity it,
            Request_No = request_no (hospital_data d)\<rparr>])
       its"

text \<open>Lines 204 to 221: the loop over the processed files.\<close>

fun collect ::
  "processed_file list \<Rightarrow> (string \<times> int) list \<times> hospital_row list \<Rightarrow>
   (string \<times> int) list \<times> hospital_row list" where
  "collect [] acc = acc"
| "collect (file_data # rest) (consolidated_items, hospital_distribution) =
     (case data file_data of
        None \<Rightarrow> collect rest (consolidated_items, hospital_distribution)
      | Some d \<Rightarrow>
          collect rest
            (add_items consolidated_items (summary_items d),
             add_rows d hospital_distribution (summary_items d)))"

text \<open>Lines 224 to 226.\<close>

fun total_rows :: "(string \<times> int) list \<Rightarrow> hospital_row list \<Rightarrow> (string \<times> int) list" where
  "total_rows hospital_totals [] = hospital_totals"
| "total_rows hospital_totals (row # rows) =
     total_rows
       (dict_set hospital_totals (Item row) (dict_get hospital_totals (Item row) 0 + Quantity row))
       rows"

definition table :: "(string \<times> int) list \<Rightarrow> total_row list" where
  "table d = map (\<lambda>(k, v). \<lparr>Total_Item = k, Total_Quantity = v\<rparr>) d"

text \<open>Lines 201 to 237, the body of the guard of line 199.\<close>

definition aggregate :: "processed_file list \<Rightarrow> aggregated" where
  "aggregate processed_data =
     (let (consolidated_items, hospital_distribution) = collect processed_data ([], []);
          hospital_totals = total_rows [] hospital_distribution
      in \<lparr>consolidated_en_items = table consolidated_items,
          multi_file_hospital_distribution = hospital_distribution,
          hospital_dist_item_totals =
            table hospital_totals @
            [\<lparr>Total_Item = ''GRAND TOTAL'',
              Total_Quantity = sum_list (map snd hospital_totals)\<rparr>]\<rparr>)"

section \<open>One run of the script\<close>

text \<open>
  Streamlit keeps \<open>st.session_state\<close> from one run of the script to the next. A run with
  no uploaded file skips lines 162 to 237; a run whose batch has no successful document
  stores the batch and leaves \<open>aggregated_data\<close> as it was.
\<close>

record session_state =
  processed_files :: "processed_file list"
  aggregated_data :: "aggregated option"

definition initial_session :: session_state where
  "initial_session = \<lparr>processed_files = [], aggregated_data = None\<rparr>"

definition any_data :: "processed_file list \<Rightarrow> bool" where
  "any_data processed_data = list_ex (\<lambda>pd. data pd \<noteq> None) processed_data"

definition run :: "(nat \<Rightarrow> stamp) \<Rightarrow> uploaded_file list \<Rightarrow> session_state \<Rightarrow> session_state" where
  "run clock uploaded_files st =
     (if uploaded_files = [] then st
      else
        (let processed_data = fst (process_files clock 0 uploaded_files ([], []));
             st1 = st\<lparr>processed_files := processed_data\<rparr>
         in if any_data processed_data
            then st1\<lparr>aggregated_data := Some (aggregate processed_data)\<rparr>
            else st1))"

section \<open>Auxiliary notions for the statements\<close>

text \<open>The row that lines 214 to 221 build from a document and one of its items.\<close>

definition row_of :: "pdf_result \<Rightarrow> summary_item \<Rightarrow> hospital_row" where
  "row_of d it =
     \<lparr>PO_Number = po_number d, Date = date d, Hospital = name (hospital_data d),
      Item = item_name it, Quantity = quantity it, Request_No = request_no (hospital_data d)\<rparr>"

text \<open>
  A document succeeds when \<open>fitz.open\<close> and every page of the loop go through; the
  entry that the batch loop appends for a file depends on that alone.
\<close>

definition succeeds :: "uploaded_file \<Rightarrow> bool" where
  "succeeds f =
     (case fitz_open f of
        Inl e \<Rightarrow> False
      | Inr doc \<Rightarrow> (case process_pages doc [] of Inl e \<Rightarrow> False | Inr items \<Rightarrow> True))"

definition entry_of :: "stamp \<Rightarrow> uploaded_file \<Rightarrow> processed_file" where
  "entry_of now f =
     (case fst (process_pdf now f) of
        Some result \<Rightarrow> \<lparr>pf_file_name = file_name f, data = Some result, error = None\<rparr>
      | None \<Rightarrow> \<lparr>pf_file_name = file_name f, data = None, error = Some ''Processing failed''\<rparr>)"

text \<open>A catalog entry matches a text when one of its patterns is found in it.\<close>

definition entry_matches :: "string \<times> regex list \<Rightarrow> str \<Rightarrow> bool" where
  "entry_matches e t = list_ex (\<lambda>p. re_search True p t \<noteq> None) (snd e)"

text \<open>
  Two characters are case variants when they are equal or the capital and the small
  form of one ASCII letter; two results of the matcher are variants when the texts they
  leave over are, character by character.
\<close>

definition case_variant :: "codepoint \<Rightarrow> codepoint \<Rightarrow> bool" where
  "case_variant c c' =
     (c' = c \<or> (65 \<le> c \<and> c \<le> 90 \<and> c' = c + 32) \<or> (97 \<le> c \<and> c \<le> 122 \<and> c' + 32 = c))"

definition rest_variant :: "str \<times> groups \<Rightarrow> str \<times> groups \<Rightarrow> bool" where
  "rest_variant x y = list_all2 case_variant (fst x) (fst y)"

text \<open>
  A page has no quantity field when the pattern is not found in it. It states the
  quantity 0 under the Arabic label when the pattern is found with group 1, the group of
  the Arabic alternative, a numeral of zeros only. A quantity stated under the English
  label is not meant by either notion: there the match has no group 1 and
  \<open>extract_quantity\<close> raises.
\<close>

definition quantity_absent :: "str \<Rightarrow> bool" where
  "quantity_absent t = (re_search False quantity_re t = None)"


text \<open>
  The same in plain terms. After either label the pattern of line 115 reads
  \<open>\s*[:;]?\s*\<close> and then the digits of its group: \<open>field_tail n\<close> is that part of
  the pattern with the digits in group \<open>n\<close>. A quantity field begins at the start of a
  text when the text begins with the Arabic label or with \<open>Quantity\<close> and then, white
  space skipped, one colon or semicolon skipped if there is one, and white space skipped
  again, a digit follows. These are exactly the texts at whose start the pattern matches
  (lemma \<open>match_at_quantity_re\<close> below).
\<close>

definition field_tail :: "nat \<Rightarrow> regex" where
  "field_tail n =
     cats [ZeroOrMore Space, Optional (OneOf [58, 59]), ZeroOrMore Space,
           Group n (OneOrMore Digit)]"

definition field_follows :: "str \<Rightarrow> bool" where
  "field_follows s =
     (let s1 = dropWhile is_space s;
          s2 = (case s1 of [] \<Rightarrow> [] | c # r \<Rightarrow> if c = 58 \<or> c = 59 then r else s1);
          s3 = dropWhile is_space s2
      in case s3 of [] \<Rightarrow> False | c # r \<Rightarrow> is_digit c)"

definition quantity_field_at :: "str \<Rightarrow> bool" where
  "quantity_field_at s =
     ((take 6 s = quantity_ar \<and> field_follows (drop 6 s)) \<or>
      (take 8 s = ascii ''Quantity'' \<and> field_follows (drop 8 s)))"

subsection \<open>Example inputs\<close>

text \<open>
  A clock that always reads noon on 1 January 2025, page texts with the Arabic name of
  NeoMune on one line and a quantity field on the next (quantity 25, quantity 0, no
  field, the English label with 5 and with 0, the quantity 250), a page with a quantity
  field before the name and another after it, a text that two catalog entries match,
  and some files.
\<close>

definition noon :: "nat \<Rightarrow> stamp" where
  "noon k = \<lparr>hms = ''120000'', ymd = ''2025-01-01''\<rparr>"

definition example_text :: str where
  "example_text = neomune_ar @ [10] @ quantity_ar @ ascii '': 25''"

definition zero_text :: str where
  "zero_text = neomune_ar @ [10] @ quantity_ar @ ascii '': 0''"

definition absent_text :: str where
  "absent_text = neomune_ar"

definition english_text :: str where
  "english_text = neomune_ar @ [10] @ ascii ''Quantity: 5''"

definition tie_text :: str where
  "tie_text = ascii ''Lactose free low cholesterol Amino Acid Hepatic Can''"

definition tie_text_upper :: str where
  "tie_text_upper = ascii ''LACTOSE FREE LOW CHOLESTEROL AMINO ACID HEPATIC CAN''"

definition english_zero_text :: str where
  "english_zero_text = neomune_ar @ [10] @ ascii ''Quantity: 0''"

definition earlier_field_text :: str where
  "earlier_field_text =
     quantity_ar @ ascii '': 3'' @ [10] @ neomune_ar @ [10] @ quantity_ar @ ascii '': 25''"

definition longer_number_text :: str where
  "longer_number_text = neomune_ar @ [10] @ quantity_ar @ ascii '': 250''"

definition one_page :: "string \<Rightarrow> str \<Rightarrow> uploaded_file" where
  "one_page n t = \<lparr>file_name = n, fitz_open = Inr [Page (Inr t)]\<rparr>"

definition corrupt_file :: uploaded_file where
  "corrupt_file = \<lparr>file_name = ''bad.pdf'', fitz_open = Inl FitzError\<rparr>"


definition unreadable_file :: uploaded_file where
  "unreadable_file = \<lparr>file_name = ''scan.pdf'', fitz_open = Inr [Page (Inl FitzError)]\<rparr>"

definition example_batch :: "uploaded_file list" where
  "example_batch =
     [one_page ''po1.pdf'' example_text, corrupt_file, one_page ''po2.pdf'' absent_text]"

section \<open>The two aggregations agree\<close>

lemma add_rows_eq: "add_rows d rows its = rows @ map (row_of d) its"
  by (induction its arbitrary: rows) (simp_all add: row_of_def)

lemma total_rows_append: "total_rows h (xs @ ys) = total_rows (total_rows h xs) ys"
  by (induction xs arbitrary: h) simp_all

lemma total_rows_row_of: "total_rows h (map (row_of d) its) = add_items h its"
  by (induction its arbitrary: h) (simp_all add: row_of_def)

text \<open>
  The loop over the processed files keeps this invariant: the totals of the rows collected
  so far are the consolidated items collected so far, key by key and in the same order.
\<close>

lemma collect_invariant:
  "total_rows [] h = c \<Longrightarrow> total_rows [] (snd (collect pd (c, h))) = fst (collect pd (c, h))"
proof (induction pd arbitrary: c h)
  case Nil
  then show ?case by simp
next
  case (Cons file_data rest)
  show ?case
  proof (cases "data file_data")
    case None
    with Cons.IH [OF Cons.prems] show ?thesis by simp
  next
    case (Some d)
    have "total_rows [] (add_rows d h (summary_items d)) = add_items c (summary_items d)"
      using Cons.prems by (simp add: add_rows_eq total_rows_append total_rows_row_of)
    from Cons.IH [OF this] Some show ?thesis by simp
  qed
qed

lemma map_Total_Quantity_table: "map Total_Quantity (table d) = map snd d"
  by (induction d) (auto simp: table_def)

lemma aggregate_totals:
  "hospital_dist_item_totals (aggregate pd) =
     consolidated_en_items (aggregate pd) @
       [\<lparr>Total_Item = ''GRAND TOTAL'',
         Total_Quantity = sum_list (map Total_Quantity (consolidated_en_items (aggregate pd)))\<rparr>]"
proof -
  obtain c h where ch: "collect pd ([], []) = (c, h)"
    by (cases "collect pd ([], [])")
  have "total_rows [] h = c"
    using collect_invariant [of "[]" "[]" pd] ch by simp
  then show ?thesis
    by (simp add: aggregate_def ch map_Total_Quantity_table)
qed

text \<open>
  C1. For every batch, the consolidated items and the item totals computed from the
  hospital-distribution rows, the grand-total row left out, are the same table: the same
  items in the same order with the same summed quantities. In particular the two sums
  of quantities are equal.
\<close>

theorem consolidated_items_agree_with_hospital_totals:
  "consolidated_en_items (aggregate processed_data) =
     butlast (hospital_dist_item_totals (aggregate processed_data)) \<and>
   sum_list (map Total_Quantity (consolidated_en_items (aggregate processed_data))) =
     sum_list (map Total_Quantity (butlast (hospital_dist_item_totals (aggregate processed_data))))"
  by (simp add: aggregate_totals)

section \<open>The batch loop\<close>

lemma process_pdf_succeeds: "fst (process_pdf now f) \<noteq> None \<longleftrightarrow> succeeds f"
  by (simp add: process_pdf_def succeeds_def split: sum.splits)

text \<open>
  The loop appends one entry per file, in the order of the files; the entry of the
  \<open>i\<close>-th file is what that file alone gives at its clock reading.
\<close>

lemma process_files_entries:
  "fst (process_files clock k fs (pd, ui)) =
     pd @ map (\<lambda>i. entry_of (clock (k + i)) (fs ! i)) [0..<length fs]"
proof (induction fs arbitrary: k pd ui)
  case Nil
  show ?case by simp
next
  case (Cons f fs)
  have shift: "map (\<lambda>i. entry_of (clock (k + i)) ((f # fs) ! i)) [0..<Suc (length fs)] =
      entry_of (clock k) f # map (\<lambda>i. entry_of (clock (Suc k + i)) (fs ! i)) [0..<length fs]"
    by (simp add: upt_conv_Cons map_Suc_upt [symmetric] del: upt_Suc)
  show ?case
  proof (cases "process_pdf (clock k) f")
    case (Pair res out)
    show ?thesis
    proof (cases res)
      case None
      with Pair have "entry_of (clock k) f =
          \<lparr>pf_file_name = file_name f, data = None, error = Some ''Processing failed''\<rparr>"
        by (simp add: entry_of_def)
      with Pair None show ?thesis
        by (simp add: Cons.IH shift del: upt_Suc)
    next
      case (Some result)
      with Pair have "entry_of (clock k) f =
          \<lparr>pf_file_name = file_name f, data = Some result, error = None\<rparr>"
        by (simp add: entry_of_def)
      with Pair Some show ?thesis
        by (simp add: Cons.IH shift del: upt_Suc)
    qed
  qed
qed

lemma data_entry_of: "data (entry_of now f) = fst (process_pdf now f)"
  by (simp add: entry_of_def split: option.splits)

lemma any_data_process_files:
  "any_data (fst (process_files clock 0 fs ([], []))) \<longleftrightarrow> list_ex succeeds fs"
proof -
  have "any_data (fst (process_files clock 0 fs ([], []))) \<longleftrightarrow>
        (\<exists>i<length fs. fst (process_pdf (clock i) (fs ! i)) \<noteq> None)"
    by (auto simp: any_data_def process_files_entries list_ex_iff data_entry_of)
  also have "\<dots> \<longleftrightarrow> (\<exists>i<length fs. succeeds (fs ! i))"
    using process_pdf_succeeds by simp
  also have "\<dots> \<longleftrightarrow> list_ex succeeds fs"
    by (metis in_set_conv_nth list_ex_iff)
  finally show ?thesis .
qed

lemma process_pdf_corrupt: "process_pdf now corrupt_file = (None, [Processing_error FitzError])"
  by (simp add: process_pdf_def corrupt_file_def)

lemma not_succeeds_corrupt: "\<not> succeeds corrupt_file"
  by (simp add: succeeds_def corrupt_file_def)

section \<open>Searching for a pattern\<close>

lemma lit_ok_refl: "lit_ok ic x x"
  by (simp add: lit_ok_def)

lemma rmatch_lits: "rmatch ic (lits w) (w @ v) g = [(v, g)]"
  by (induction w) (simp_all add: lit_ok_refl)

lemma match_at_lits: "match_at ic (lits w) (w @ v) = Some []"
  by (simp add: match_at_def rmatch_lits)

lemma re_search_match_at: "match_at ic r s = Some g \<Longrightarrow> re_search ic r s = Some g"
  by (cases s) simp_all

text \<open>Start positions at which the pattern does not match are passed over.\<close>

lemma re_search_skip:
  "(\<forall>k<length pre. match_at ic r (drop k (pre @ s)) = None) \<Longrightarrow>
     re_search ic r (pre @ s) = re_search ic r s"
proof (induction pre)
  case Nil
  show ?case by simp
next
  case (Cons c pre)
  from Cons.prems have "match_at ic r (c # pre @ s) = None"
    by (metis append_Cons drop0 length_greater_0_conv list.distinct(1))
  moreover have "\<forall>k<length pre. match_at ic r (drop k (pre @ s)) = None"
  proof (intro allI impI)
    fix k assume "k < length pre"
    then have "Suc k < length (c # pre)" by simp
    from Cons.prems [rule_format, OF this] show "match_at ic r (drop k (pre @ s)) = None"
      by simp
  qed
  ultimately show ?case using Cons.IH by simp
qed

lemma re_search_found: "match_at ic r s \<noteq> None \<Longrightarrow> re_search ic r (u @ s) \<noteq> None"
proof (induction u)
  case Nil
  then show ?case by (cases s) auto
next
  case (Cons c u)
  then show ?case by (auto split: option.splits)
qed

lemma re_search_lits: "re_search ic (lits w) (u @ w @ v) \<noteq> None"
  by (rule re_search_found) (simp add: match_at_lits)

lemma is_space_simps:
  "is_space 32" "is_space 10" "\<not> is_space 58" "\<not> is_space 59" "\<not> is_space 48"
  "\<not> is_space 50" "\<not> is_space 51" "\<not> is_space 53"
  by (simp_all add: is_space_def whitespace_table_def)

lemma is_digit_simps:
  "is_digit 48" "is_digit 50" "is_digit 51" "is_digit 53"
  "\<not> is_digit 32" "\<not> is_digit 58" "\<not> is_digit 10"
  by (simp_all add: is_digit_def digit_value_def digit_zeros_def)

lemma digit_value_simps:
  "digit_value 48 = Some 0" "digit_value 50 = Some 2" "digit_value 51 = Some 3"
  "digit_value 53 = Some 5"
  by (simp_all add: digit_value_def digit_zeros_def)

lemmas text_defs = example_text_def zero_text_def absent_text_def english_text_def
  english_zero_text_def earlier_field_text_def longer_number_text_def neomune_ar_def aminoleban_ar_def blendera_ar_def quantity_ar_def ascii_def

lemmas search_defs = quantity_re_def match_at_def lit_ok_def is_space_simps is_digit_simps

subsection \<open>Upper and lower case under IGNORECASE\<close>

lemma sre_lower_variant: "case_variant c c' \<Longrightarrow> sre_lower c' = sre_lower c"
  by (auto simp: case_variant_def sre_lower_def)

lemma lit_ok_variant: "case_variant c c' \<Longrightarrow> lit_ok True x c' = lit_ok True x c"
  by (simp add: lit_ok_def sre_lower_variant)

lemma is_space_letter: "65 \<le> c \<Longrightarrow> c \<le> 122 \<Longrightarrow> \<not> is_space c"
  by (auto simp: is_space_def whitespace_table_def)

lemma is_digit_letter: "65 \<le> c \<Longrightarrow> c \<le> 122 \<Longrightarrow> \<not> is_digit c"
  by (simp add: is_digit_def digit_value_def digit_zeros_def)

text \<open>No atom of a pattern tells the two case variants of a letter apart.\<close>

lemma atom_ok_variant: "case_variant c c' \<Longrightarrow> atom_ok True a c' = atom_ok True a c"
proof (cases a)
  case (Lit x)
  assume "case_variant c c'"
  then show ?thesis using Lit by (simp add: lit_ok_variant)
next
  case Dot
  assume "case_variant c c'"
  then show ?thesis using Dot by (auto simp: case_variant_def)
next
  case Space
  assume cv: "case_variant c c'"
  show ?thesis
  proof (cases "c' = c")
    case True
    then show ?thesis by simp
  next
    case False
    with cv have "65 \<le> c \<and> c \<le> 122 \<and> 65 \<le> c' \<and> c' \<le> 122"
      by (auto simp: case_variant_def)
    then show ?thesis using Space by (simp add: is_space_letter)
  qed
next
  case Digit
  assume cv: "case_variant c c'"
  show ?thesis
  proof (cases "c' = c")
    case True
    then show ?thesis by simp
  next
    case False
    with cv have "65 \<le> c \<and> c \<le> 122 \<and> 65 \<le> c' \<and> c' \<le> 122"
      by (auto simp: case_variant_def)
    then show ?thesis using Digit by (simp add: is_digit_letter)
  qed
next
  case (OneOf xs)
  assume "case_variant c c'"
  then show ?thesis using OneOf by (simp add: lit_ok_variant)
qed

lemma list_all2_concat:
  "list_all2 (list_all2 R) xss yss \<Longrightarrow> list_all2 R (concat xss) (concat yss)"
  by (induction rule: list_all2_induct) (simp_all add: list_all2_appendI)

lemma repeat_greedy_variant:
  "list_all2 case_variant s s' \<Longrightarrow>
     list_all2 (list_all2 case_variant)
       (repeat_greedy (atom_ok True a) s) (repeat_greedy (atom_ok True a) s')"
proof (induction rule: list_all2_induct)
  case Nil
  show ?case by simp
next
  case (Cons c s c' s')
  then show ?case
    by (auto simp: atom_ok_variant intro!: list_all2_appendI)
qed

text \<open>
  On two texts that differ in the case of letters only, the matcher goes the same way:
  it finds as many matches, in the same order, and leaves over texts that again differ
  in case only.
\<close>

lemma rmatch_variant:
  "list_all2 case_variant s s' \<Longrightarrow>
     list_all2 rest_variant (rmatch True r s g) (rmatch True r s' g')"
proof (induction r arbitrary: s s' g g')
  case Eps
  then show ?case by (simp add: rest_variant_def)
next
  case (One a)
  then show ?case
    by (cases s; cases s') (auto simp: rest_variant_def atom_ok_variant)
next
  case (ZeroOrMore a)
  from repeat_greedy_variant [OF this, of a] show ?case
    by (simp add: list_all2_map1 list_all2_map2 rest_variant_def)
next
  case (OneOrMore a)
  show ?case
  proof (cases s)
    case Nil
    with OneOrMore show ?thesis by simp
  next
    case (Cons c t)
    with OneOrMore obtain c' t' where s': "s' = c' # t'" and cv: "case_variant c c'"
      and tt: "list_all2 case_variant t t'"
      by (auto simp: list_all2_Cons1)
    from repeat_greedy_variant [OF tt, of a] Cons s' cv show ?thesis
      by (simp add: list_all2_map1 list_all2_map2 rest_variant_def atom_ok_variant)
  qed
next
  case (Optional a)
  then show ?case
    by (cases s; cases s') (auto simp: rest_variant_def atom_ok_variant)
next
  case (Cat r1 r2)
  have "list_all2 (list_all2 rest_variant)
          (map (\<lambda>(s', g'). rmatch True r2 s' g') (rmatch True r1 s g))
          (map (\<lambda>(s', g'). rmatch True r2 s' g') (rmatch True r1 s' g'))"
    unfolding list_all2_map1 list_all2_map2
  proof (rule list_all2_mono [OF Cat.IH(1) [OF Cat.prems]])
    fix x y assume "rest_variant x y"
    then show "list_all2 rest_variant (case x of (s', g') \<Rightarrow> rmatch True r2 s' g')
        (case y of (s', g') \<Rightarrow> rmatch True r2 s' g')"
      by (cases x; cases y) (simp add: rest_variant_def Cat.IH(2))
  qed
  then show ?case by (simp add: list_all2_concat)
next
  case (Alt r1 r2)
  then show ?case by (simp add: list_all2_appendI)
next
  case (Group n r)
  have "list_all2 rest_variant (rmatch True r s g) (rmatch True r s' g')"
    by (rule Group.IH [OF Group.prems])
  then have "list_all2 (\<lambda>x y. list_all2 case_variant (fst x) (fst y))
      (rmatch True r s g) (rmatch True r s' g')"
    by (simp add: rest_variant_def [abs_def])
  then show ?case
    by (simp add: list_all2_map1 list_all2_map2 rest_variant_def case_prod_unfold)
qed

lemma match_at_variant:
  "list_all2 case_variant s s' \<Longrightarrow> match_at True r s' = None \<longleftrightarrow> match_at True r s = None"
proof -
  assume "list_all2 case_variant s s'"
  from rmatch_variant [OF this, of r "[]" "[]"]
  have "length (rmatch True r s []) = length (rmatch True r s' [])"
    by (rule list_all2_lengthD)
  then show ?thesis
    by (cases "rmatch True r s []"; cases "rmatch True r s' []") (auto simp: match_at_def)
qed

lemma re_search_variant:
  "list_all2 case_variant s s' \<Longrightarrow> re_search True r s' = None \<longleftrightarrow> re_search True r s = None"
proof (induction rule: list_all2_induct)
  case Nil
  show ?case by simp
next
  case (Cons c s c' s')
  then have "list_all2 case_variant (c # s) (c' # s')" by simp
  from match_at_variant [OF this, of r] Cons.IH show ?case
    by (auto split: option.splits)
qed

section \<open>Product identification returns the first entry that matches\<close>

lemma any_pattern_iff: "any_pattern ps t \<longleftrightarrow> entry_matches (n, ps) t"
  by (induction ps) (simp_all add: entry_matches_def)

lemma identify_in_first:
  "i < length cat \<Longrightarrow> entry_matches (cat ! i) t \<Longrightarrow> (\<forall>j<i. \<not> entry_matches (cat ! j) t) \<Longrightarrow>
     identify_in cat t = Some (fst (cat ! i))"
proof (induction cat arbitrary: i)
  case Nil
  then show ?case by simp
next
  case (Cons e cat)
  obtain n ps where e: "e = (n, ps)" by (cases e)
  show ?case
  proof (cases i)
    case 0
    with Cons.prems e show ?thesis by (simp add: any_pattern_iff [of ps t n])
  next
    case (Suc i')
    with Cons.prems have "\<not> entry_matches e t" by auto
    moreover have "identify_in cat t = Some (fst (cat ! i'))"
    proof (rule Cons.IH)
      show "i' < length cat" using Cons.prems Suc by simp
      show "entry_matches (cat ! i') t" using Cons.prems Suc by simp
      show "\<forall>j<i'. \<not> entry_matches (cat ! j) t"
      proof (intro allI impI)
        fix j assume "j < i'"
        then have "Suc j < i" using Suc by simp
        with Cons.prems(3) have "\<not> entry_matches ((e # cat) ! Suc j) t" by blast
        then show "\<not> entry_matches (cat ! j) t" by simp
      qed
    qed
    ultimately show ?thesis using e Suc by (simp add: any_pattern_iff [of ps t n])
  qed
qed

lemma identify_in_none:
  "(\<forall>i<length cat. \<not> entry_matches (cat ! i) t) \<Longrightarrow> identify_in cat t = None"
proof (induction cat)
  case Nil
  show ?case by simp
next
  case (Cons e cat)
  obtain n ps where e: "e = (n, ps)" by (cases e)
  from Cons.prems have "\<not> entry_matches e t" by auto
  moreover have "\<forall>i<length cat. \<not> entry_matches (cat ! i) t"
  proof (intro allI impI)
    fix i assume "i < length cat"
    then have "Suc i < length (e # cat)" by simp
    with Cons.prems have "\<not> entry_matches ((e # cat) ! Suc i) t" by blast
    then show "\<not> entry_matches (cat ! i) t" by simp
  qed
  ultimately show ?case using e Cons.IH by (simp add: any_pattern_iff [of ps t n])
qed

lemma any_pattern_variant:
  "list_all2 case_variant s s' \<Longrightarrow> any_pattern ps s' = any_pattern ps s"
  by (induction ps) (simp_all add: re_search_variant)

lemma identify_in_variant:
  "list_all2 case_variant s s' \<Longrightarrow> identify_in cat s' = identify_in cat s"
  by (induction cat) (auto simp: any_pattern_variant)

lemma identify_NeoMune: "identify_product (u @ neomune_ar @ v) = Some ''NeoMune''"
  by (simp add: identify_product_def PRODUCT_MAP_def re_search_lits)

lemma identify_empty: "identify_product [] = None"
  by (simp add: identify_product_def PRODUCT_MAP_def ascii_def match_at_def
      neomune_ar_def aminoleban_ar_def blendera_ar_def)

lemma length_PRODUCT_MAP: "length PRODUCT_MAP = 3"
  by (simp add: PRODUCT_MAP_def)

lemma names_PRODUCT_MAP:
  "fst (PRODUCT_MAP ! 0) = ''NeoMune''" "fst (PRODUCT_MAP ! Suc 0) = ''Aminoleban Oral''"
  "fst (PRODUCT_MAP ! 2) = ''Blendera MF''"
  by (simp_all add: PRODUCT_MAP_def)

lemma tie_not_neomune: "\<not> entry_matches (PRODUCT_MAP ! 0) tie_text"
  by (simp add: entry_matches_def PRODUCT_MAP_def tie_text_def text_defs match_at_def
      lit_ok_def sre_lower_def sre_fixes_def)

lemma tie_aminoleban: "entry_matches (PRODUCT_MAP ! Suc 0) tie_text"
  by (simp add: entry_matches_def PRODUCT_MAP_def tie_text_def text_defs match_at_def
      lit_ok_def sre_lower_def sre_fixes_def)

lemma tie_blendera: "entry_matches (PRODUCT_MAP ! 2) tie_text"
  by (simp add: entry_matches_def PRODUCT_MAP_def tie_text_def text_defs match_at_def
      lit_ok_def sre_lower_def sre_fixes_def)

lemma tie_variant: "list_all2 case_variant tie_text tie_text_upper"
  by (simp add: tie_text_def tie_text_upper_def ascii_def case_variant_def)

text \<open>
  C4. Product identification returns the name of the first catalog entry, in the order
  of the catalog, one of whose patterns is found in the page text: when entry \<open>i\<close>
  matches and no entry before it does, the result is its name, whatever entries after
  it match as well. When no entry matches, the result is \<open>None\<close>. Matching ignores the
  case of letters: a text that differs from another in the case of ASCII letters only is
  identified as the same product. The program runs this on \<open>PRODUCT_MAP\<close>.
\<close>

theorem first_catalog_entry_wins:
  "(i < length cat \<and> entry_matches (cat ! i) t \<and> (\<forall>j<i. \<not> entry_matches (cat ! j) t) \<longrightarrow>
      identify_in cat t = Some (fst (cat ! i))) \<and>
   ((\<forall>i<length cat. \<not> entry_matches (cat ! i) t) \<longrightarrow> identify_in cat t = None) \<and>
   (list_all2 case_variant t t' \<longrightarrow> identify_in cat t' = identify_in cat t) \<and>
   identify_product t = identify_in PRODUCT_MAP t"
  using identify_in_first [of i cat t] identify_in_none [of cat t]
    identify_in_variant [of t t' cat]
  by (simp add: identify_product_def)

text \<open>
  The text \<open>Lactose free low cholesterol Amino Acid Hepatic Can\<close> matches the entries of
  Aminoleban Oral and of Blendera MF and not that of NeoMune: it is identified as
  Aminoleban Oral, the earlier of the two, and so is the same text in capitals. The empty
  text matches nothing.
\<close>

theorem first_catalog_entry_wins_witness:
  "entry_matches (PRODUCT_MAP ! 1) tie_text \<and> entry_matches (PRODUCT_MAP ! 2) tie_text \<and>
   \<not> entry_matches (PRODUCT_MAP ! 0) tie_text \<and>
   identify_product tie_text = Some ''Aminoleban Oral'' \<and>
   list_all2 case_variant tie_text tie_text_upper \<and>
   identify_product tie_text_upper = Some ''Aminoleban Oral'' \<and>
   identify_product [] = None"
proof -
  have none_before: "\<forall>j<1. \<not> entry_matches (PRODUCT_MAP ! j) tie_text"
    by (simp add: tie_not_neomune)
  have "identify_product tie_text = Some ''Aminoleban Oral''"
    using first_catalog_entry_wins [of 1 PRODUCT_MAP tie_text tie_text] none_before
    by (simp add: length_PRODUCT_MAP names_PRODUCT_MAP tie_aminoleban)
  moreover have "identify_product tie_text_upper = identify_product tie_text"
    using first_catalog_entry_wins [of 1 PRODUCT_MAP tie_text tie_text_upper]
      first_catalog_entry_wins [of 1 PRODUCT_MAP tie_text_upper tie_text_upper] tie_variant
    by simp
  ultimately show ?thesis
    by (simp add: tie_aminoleban tie_blendera tie_not_neomune tie_variant identify_empty)
qed

section \<open>Quantity extraction\<close>

lemma search_example: "re_search False quantity_re example_text = Some [(1, [50, 53])]"
  by (simp add: text_defs search_defs)


lemma search_absent: "re_search False quantity_re absent_text = None"
  by (simp add: text_defs search_defs)

lemma search_english: "re_search False quantity_re english_text = Some [(2, [53])]"
  by (simp add: text_defs search_defs)

lemma identify_example: "identify_product example_text = Some ''NeoMune''"
  using identify_NeoMune [of "[]"] by (simp add: example_text_def)


lemma identify_absent: "identify_product absent_text = Some ''NeoMune''"
  using identify_NeoMune [of "[]" "[]"] by (simp add: absent_text_def)

lemma identify_english: "identify_product english_text = Some ''NeoMune''"
  using identify_NeoMune [of "[]"] by (simp add: english_text_def)

lemma py_int_25: "py_int (Some [50, 53]) = Inr 25"
  by (simp add: py_int_def is_digit_simps int_max_str_digits_def digits_value_def
      digit_value_simps)


lemma extract_example: "extract_quantity example_text = Inr 25"
  by (simp add: extract_quantity_def search_example group_def py_int_25)


lemma extract_absent: "extract_quantity absent_text = Inr 0"
  by (simp add: extract_quantity_def search_absent)

lemma extract_english: "extract_quantity english_text = Inl TypeError"
  by (simp add: extract_quantity_def search_english group_def py_int_def)

lemma pages_example:
  "process_pages [Page (Inr example_text)] [] = Inr [\<lparr>item_name = ''NeoMune'', quantity = 25\<rparr>]"
  by (simp add: extract_text_def identify_example extract_example py_or_def)


lemma pages_absent:
  "process_pages [Page (Inr absent_text)] [] = Inr [\<lparr>item_name = ''NeoMune'', quantity = 10\<rparr>]"
  by (simp add: extract_text_def identify_absent extract_absent py_or_def)

lemma pages_english: "process_pages [Page (Inr english_text)] [] = Inl TypeError"
  by (simp add: extract_text_def identify_english extract_english)

text \<open>
  C6. The claim is that a quantity under the English label is returned as under the
  Arabic one. The pattern does find \<open>Quantity: 5\<close>, with the digit in group 2; the
  function reads group 1, which took no part in the match, and \<open>int(None)\<close> raises
  \<open>TypeError\<close>. In \<open>process_pdf\<close> the exception ends the document: a file whose one page
  names NeoMune and reads \<open>Quantity: 5\<close> gives no result at all.
\<close>

theorem english_label_raises:
  "re_search False quantity_re (ascii ''Quantity: 5'') = Some [(2, [53])] \<and>
   extract_quantity (ascii ''Quantity: 5'') = Inl TypeError \<and>
   process_pdf (noon 0) (one_page ''po.pdf'' english_text) = (None, [Processing_error TypeError])"
proof -
  have s: "re_search False quantity_re (ascii ''Quantity: 5'') = Some [(2, [53])]"
    by (simp add: text_defs search_defs)
  then have "extract_quantity (ascii ''Quantity: 5'') = Inl TypeError"
    by (simp add: extract_quantity_def group_def py_int_def)
  moreover have "process_pdf (noon 0) (one_page ''po.pdf'' english_text) =
      (None, [Processing_error TypeError])"
    by (simp add: process_pdf_def one_page_def pages_english del: process_pages.simps)
  ultimately show ?thesis using s by simp
qed





lemma process_pages_one:
  "identify_product t = Some p \<Longrightarrow> p \<noteq> [] \<Longrightarrow> extract_quantity t = Inr q \<Longrightarrow>
     process_pages [Page (Inr t)] items = Inr (items @ [\<lparr>item_name = p, quantity = py_or q 10\<rparr>])"
  by (simp add: extract_text_def)






section \<open>No line item has the quantity 0\<close>
















section \<open>A page whose text cannot be extracted\<close>

lemma process_pages_skip_failed:
  "process_pages (pre @ Page (Inl e) # post) items = process_pages (pre @ post) items"
proof (induction pre arbitrary: items)
  case Nil
  show ?case by (simp add: extract_text_def identify_empty)
next
  case (Cons pg pre)
  show ?case
  proof (cases "identify_product (extract_text pg)")
    case None
    then show ?thesis by (simp add: Cons.IH)
  next
    case (Some product)
    then show ?thesis by (simp add: Cons.IH split: sum.splits)
  qed
qed

lemma process_pdf_unreadable:
  "process_pdf (noon 0) unreadable_file =
     (Some \<lparr>po_number = ''DEMO-120000'', date = ''2025-01-01'',
            hospital_data = \<lparr>name = ''Demo Hospital'', request_no = ''DEMO-REQ''\<rparr>,
            summary_items = [], ocr_pages = []\<rparr>, [])"
  by (simp add: process_pdf_def unreadable_file_def noon_def extract_text_def identify_empty)

text \<open>
  C7, as amended. Page text extraction raises nothing: for a page whose \<open>get_text\<close>
  fails it returns the empty string. Such a page contributes no line item, and the other
  pages of the document are processed as if it were not there: the document with the
  failed page gives the same result and shows the same messages as the document without
  it. No diagnostic note is recorded: \<open>ocr_pages\<close> is empty in every result.
\<close>

theorem failed_page_contributes_nothing:
  "extract_text (Page (Inl e)) = [] \<and>
   process_pages (pre @ Page (Inl e) # post) items = process_pages (pre @ post) items \<and>
   process_pdf now \<lparr>file_name = n, fitz_open = Inr (pre @ Page (Inl e) # post)\<rparr> =
     process_pdf now \<lparr>file_name = n, fitz_open = Inr (pre @ post)\<rparr> \<and>
   (fst (process_pdf now f) = Some r \<longrightarrow> ocr_pages r = [])"
proof -
  have "fst (process_pdf now f) = Some r \<longrightarrow> ocr_pages r = []"
    by (auto simp: process_pdf_def split: sum.splits)
  then show ?thesis
    by (simp add: extract_text_def process_pdf_def process_pages_skip_failed
        del: process_pages.simps)
qed

theorem failed_page_contributes_nothing_witness:
  "fst (process_pdf (noon 0) unreadable_file) =
     Some \<lparr>po_number = ''DEMO-120000'', date = ''2025-01-01'',
            hospital_data = \<lparr>name = ''Demo Hospital'', request_no = ''DEMO-REQ''\<rparr>,
            summary_items = [], ocr_pages = []\<rparr> \<and>
   ocr_pages (the (fst (process_pdf (noon 0) unreadable_file))) = []"
  using failed_page_contributes_nothing [of FitzError "[]" "[]" "[]" "noon 0" "''scan.pdf''"
      unreadable_file "the (fst (process_pdf (noon 0) unreadable_file))"]
  by (simp add: process_pdf_unreadable)

text \<open>
  The claim as stated fails on a document whose one page cannot be read: the document
  succeeds with no item, its \<open>ocr_pages\<close> is empty and \<open>process_pdf\<close> shows no message;
  the batch loop shows that the file is analysed and that it is processed, and nothing
  about the page.
\<close>

theorem no_diagnostic_note_counterexample:
  "process_pdf (noon 0) unreadable_file =
     (Some \<lparr>po_number = ''DEMO-120000'', date = ''2025-01-01'',
            hospital_data = \<lparr>name = ''Demo Hospital'', request_no = ''DEMO-REQ''\<rparr>,
            summary_items = [], ocr_pages = []\<rparr>, []) \<and>
   snd (process_files noon 0 [unreadable_file] ([], [])) =
     [Analyzing ''scan.pdf'', Processed ''scan.pdf'']"
proof -
  have "file_name unreadable_file = ''scan.pdf''"
    by (simp add: unreadable_file_def)
  then show ?thesis
    by (simp add: process_pdf_unreadable)
qed

section \<open>A document that cannot be opened\<close>

lemma succeeds_example: "succeeds (one_page n example_text)"
  by (simp add: succeeds_def one_page_def pages_example del: process_pages.simps)

lemma succeeds_absent: "succeeds (one_page n absent_text)"
  by (simp add: succeeds_def one_page_def pages_absent del: process_pages.simps)

lemma process_pdf_example:
  "process_pdf now (one_page n example_text) =
     (Some \<lparr>po_number = ''DEMO-'' @ hms now, date = ymd now,
            hospital_data = \<lparr>name = ''Demo Hospital'', request_no = ''DEMO-REQ''\<rparr>,
            summary_items = [\<lparr>item_name = ''NeoMune'', quantity = 25\<rparr>], ocr_pages = []\<rparr>, [])"
  by (simp add: process_pdf_def one_page_def pages_example del: process_pages.simps)

lemma process_pdf_absent:
  "process_pdf now (one_page n absent_text) =
     (Some \<lparr>po_number = ''DEMO-'' @ hms now, date = ymd now,
            hospital_data = \<lparr>name = ''Demo Hospital'', request_no = ''DEMO-REQ''\<rparr>,
            summary_items = [\<lparr>item_name = ''NeoMune'', quantity = 10\<rparr>], ocr_pages = []\<rparr>, [])"
  by (simp add: process_pdf_def one_page_def pages_absent del: process_pages.simps)

text \<open>
  C8. The batch loop gives one entry per uploaded file, in the order of the files, with
  the name of the file. The data of the entry is what \<open>process_pdf\<close> gives for that file
  alone, whatever happens to the other files. For a file that \<open>fitz.open\<close> rejects the
  data is \<open>None\<close> and the entry carries the reason \<open>Processing failed\<close>; an entry has a
  reason exactly when it has no data.
\<close>

theorem batch_continues_after_failure:
  "length (fst (process_files clock 0 files ([], []))) = length files \<and>
   (\<forall>k<length files.
      pf_file_name (fst (process_files clock 0 files ([], [])) ! k) = file_name (files ! k) \<and>
      data (fst (process_files clock 0 files ([], [])) ! k) =
        fst (process_pdf (clock k) (files ! k)) \<and>
      (case fitz_open (files ! k) of
         Inl e \<Rightarrow>
           data (fst (process_files clock 0 files ([], [])) ! k) = None \<and>
           error (fst (process_files clock 0 files ([], [])) ! k) = Some ''Processing failed''
       | Inr doc \<Rightarrow> True) \<and>
      (data (fst (process_files clock 0 files ([], [])) ! k) = None \<longleftrightarrow>
       error (fst (process_files clock 0 files ([], [])) ! k) \<noteq> None))"
  by (auto simp: process_files_entries entry_of_def process_pdf_def
      split: option.splits sum.splits)

text \<open>
  In the batch of a good file, a file that does not open and another good file, the
  second entry is the failure of \<open>bad.pdf\<close> and the third is the result of the third
  file.
\<close>

theorem batch_continues_after_failure_witness:
  "length (fst (process_files noon 0 example_batch ([], []))) = 3 \<and>
   pf_file_name (fst (process_files noon 0 example_batch ([], [])) ! Suc 0) = ''bad.pdf'' \<and>
   data (fst (process_files noon 0 example_batch ([], [])) ! Suc 0) = None \<and>
   error (fst (process_files noon 0 example_batch ([], [])) ! Suc 0) =
     Some ''Processing failed'' \<and>
   data (fst (process_files noon 0 example_batch ([], [])) ! 2) =
     fst (process_pdf (noon 2) (one_page ''po2.pdf'' absent_text)) \<and>
   fst (process_pdf (noon 2) (one_page ''po2.pdf'' absent_text)) \<noteq> None"
proof -
  have len: "length example_batch = 3" by (simp add: example_batch_def)
  have f1: "example_batch ! Suc 0 = corrupt_file"
    and f2: "example_batch ! 2 = one_page ''po2.pdf'' absent_text"
    by (simp_all add: example_batch_def)
  from batch_continues_after_failure [of noon example_batch] len
  have a: "length (fst (process_files noon 0 example_batch ([], []))) = 3"
    and b: "\<And>k. k < 3 \<Longrightarrow>
      pf_file_name (fst (process_files noon 0 example_batch ([], [])) ! k) =
        file_name (example_batch ! k) \<and>
      data (fst (process_files noon 0 example_batch ([], [])) ! k) =
        fst (process_pdf (noon k) (example_batch ! k)) \<and>
      (case fitz_open (example_batch ! k) of
         Inl e \<Rightarrow>
           data (fst (process_files noon 0 example_batch ([], [])) ! k) = None \<and>
           error (fst (process_files noon 0 example_batch ([], [])) ! k) =
             Some ''Processing failed''
       | Inr doc \<Rightarrow> True)"
    by simp_all
  have n1: "file_name corrupt_file = ''bad.pdf''"
    and o1: "fitz_open corrupt_file = Inl FitzError"
    by (simp_all add: corrupt_file_def)
  from b [of "Suc 0"] b [of 2] a show ?thesis
    by (simp add: f1 f2 n1 o1 process_pdf_absent process_pdf_corrupt)
qed

section \<open>The grand-total row and the guard of the aggregation\<close>

text \<open>
  C2. When at least one document of the batch succeeds, the run stores aggregated data
  whose item-totals table is not empty and ends with a row named \<open>GRAND TOTAL\<close>; the
  quantity of that row is the sum of the quantities of all the other rows of the table.
\<close>

theorem grand_total_row:
  assumes "list_ex succeeds files"
  shows "\<exists>agg. aggregated_data (run clock files st) = Some agg \<and>
           hospital_dist_item_totals agg \<noteq> [] \<and>
           Total_Item (last (hospital_dist_item_totals agg)) = ''GRAND TOTAL'' \<and>
           Total_Quantity (last (hospital_dist_item_totals agg)) =
             sum_list (map Total_Quantity (butlast (hospital_dist_item_totals agg)))"
proof -
  from assms have ne: "files \<noteq> []" by auto
  from assms have "any_data (fst (process_files clock 0 files ([], [])))"
    by (simp add: any_data_process_files)
  with ne have "aggregated_data (run clock files st) =
      Some (aggregate (fst (process_files clock 0 files ([], []))))"
    by (simp add: run_def Let_def)
  then show ?thesis by (simp add: aggregate_totals)
qed

theorem grand_total_row_witness:
  "list_ex succeeds example_batch \<and>
   (\<exists>agg. aggregated_data (run noon example_batch initial_session) = Some agg \<and>
           hospital_dist_item_totals agg \<noteq> [] \<and>
           Total_Item (last (hospital_dist_item_totals agg)) = ''GRAND TOTAL'' \<and>
           Total_Quantity (last (hospital_dist_item_totals agg)) =
             sum_list (map Total_Quantity (butlast (hospital_dist_item_totals agg))))"
proof -
  have h: "list_ex succeeds example_batch"
    by (simp add: example_batch_def succeeds_example)
  from grand_total_row [OF h, of noon initial_session] h show ?thesis by simp
qed

text \<open>The tables of that batch: 25 and 10 of NeoMune, 35 in all.\<close>

lemma example_batch_totals:
  "hospital_dist_item_totals (aggregate (fst (process_files noon 0 example_batch ([], [])))) =
     [\<lparr>Total_Item = ''NeoMune'', Total_Quantity = 35\<rparr>,
      \<lparr>Total_Item = ''GRAND TOTAL'', Total_Quantity = 35\<rparr>]"
  by (simp add: example_batch_def process_pdf_example process_pdf_absent process_pdf_corrupt
      aggregate_def table_def)

text \<open>
  C9, as amended. For a batch with no document, or with no document that succeeds, the
  guard of line 199 skips the aggregation: no table is built, no error is raised, and the
  aggregated data of the session stays what it was before the run, which is \<open>None\<close> in a
  fresh session.
\<close>

theorem no_success_no_aggregation:
  assumes "\<not> list_ex succeeds files"
  shows "aggregated_data (run clock files st) = aggregated_data st"
  using assms by (simp add: run_def Let_def any_data_process_files)

theorem no_success_no_aggregation_witness:
  "\<not> list_ex succeeds [corrupt_file] \<and>
   aggregated_data (run noon [corrupt_file] initial_session) = aggregated_data initial_session \<and>
   aggregated_data initial_session = None"
proof -
  have h: "\<not> list_ex succeeds [corrupt_file]"
    by (simp add: not_succeeds_corrupt)
  from no_success_no_aggregation [OF h, of noon initial_session] h show ?thesis
    by (simp add: initial_session_def)
qed

text \<open>
  The claim as stated fails in a fresh session on the empty batch and on the batch of one
  file that does not open: the result of the aggregation is absent, not a set of empty
  tables.
\<close>

theorem empty_batch_counterexample:
  "aggregated_data (run noon [] initial_session) = None \<and>
   aggregated_data (run noon [corrupt_file] initial_session) = None"
  by (simp add: run_def initial_session_def process_pdf_corrupt any_data_def)

section \<open>Where the quantity pattern matches\<close>

lemma rmatch_lits_exact:
  "rmatch False (lits w) s g =
     (if take (length w) s = w then [(drop (length w) s, g)] else [])"
  by (induction w arbitrary: s) (auto simp: lit_ok_def split: list.splits)

lemma repeat_greedy_drop:
  "x \<in> set (repeat_greedy p s) \<Longrightarrow> \<exists>k. x = drop k s \<and> (\<forall>c\<in>set (take k s). p c)"
proof (induction s)
  case Nil
  then show ?case by simp
next
  case (Cons c s)
  show ?case
  proof (cases "x = c # s")
    case True
    then have "x = drop 0 (c # s) \<and> (\<forall>c\<in>set (take 0 (c # s)). p c)" by simp
    then show ?thesis by blast
  next
    case False
    with Cons.prems have pc: "p c" and "x \<in> set (repeat_greedy p s)"
      by (auto split: if_splits)
    with Cons.IH obtain k where "x = drop k s" and "\<forall>c\<in>set (take k s). p c" by blast
    with pc have "x = drop (Suc k) (c # s) \<and> (\<forall>a\<in>set (take (Suc k) (c # s)). p a)"
      by simp
    then show ?thesis by blast
  qed
qed

lemma dropWhile_in_repeat_greedy: "dropWhile p s \<in> set (repeat_greedy p s)"
  by (induction s) simp_all

lemma dropWhile_reached:
  "\<forall>c\<in>set (take k s). p c \<Longrightarrow> drop k s = c # r \<Longrightarrow> \<not> p c \<Longrightarrow> dropWhile p s = c # r"
proof -
  assume a: "\<forall>c\<in>set (take k s). p c" and b: "drop k s = c # r" and c: "\<not> p c"
  have "dropWhile p s = dropWhile p (take k s @ drop k s)" by simp
  also have "\<dots> = dropWhile p (drop k s)"
    using a by (simp only: dropWhile_append2)
  also have "\<dots> = c # r" using b c by simp
  finally show ?thesis .
qed

lemma digit_not_space: "is_digit c \<Longrightarrow> \<not> is_space c"
  by (auto simp: is_space_def whitespace_table_def is_digit_def digit_value_def digit_zeros_def)

lemma colon_facts:
  "\<not> is_space 58" "\<not> is_space 59" "\<not> is_digit 58" "\<not> is_digit 59"
  by (simp_all add: is_space_def whitespace_table_def is_digit_def digit_value_def
      digit_zeros_def)

lemma in_rmatch_Cat:
  "x \<in> set (rmatch ic (Cat r1 r2) s g) \<longleftrightarrow>
     (\<exists>s' g'. (s', g') \<in> set (rmatch ic r1 s g) \<and> x \<in> set (rmatch ic r2 s' g'))"
  by auto

lemma in_rmatch_ZeroOrMore:
  "(s', g') \<in> set (rmatch ic (ZeroOrMore a) s g) \<longleftrightarrow>
     g' = g \<and> s' \<in> set (repeat_greedy (atom_ok ic a) s)"
  by auto

lemma in_rmatch_Optional:
  "(s', g') \<in> set (rmatch ic (Optional a) s g) \<longleftrightarrow>
     g' = g \<and> (s' = s \<or> (\<exists>c. s = c # s' \<and> atom_ok ic a c))"
  by (cases s) auto

lemma in_rmatch_OneOrMore:
  "(s', g') \<in> set (rmatch ic (OneOrMore a) s g) \<longleftrightarrow>
     g' = g \<and> (\<exists>c r. s = c # r \<and> atom_ok ic a c \<and> s' \<in> set (repeat_greedy (atom_ok ic a) r))"
  by (cases s) auto

lemma in_rmatch_Group:
  "x \<in> set (rmatch ic (Group n r) s g) \<longleftrightarrow>
     (\<exists>s' g'. (s', g') \<in> set (rmatch ic r s g) \<and>
        x = (s', (n, take (length s - length s') s) # g'))"
  by force

lemma atom_ok_classes: "atom_ok ic Space = is_space" "atom_ok ic Digit = is_digit"
  by (rule ext, simp)+

lemma in_rmatch_Eps: "x \<in> set (rmatch ic Eps s g) \<longleftrightarrow> x = (s, g)"
  by simp

lemma colon_class: "atom_ok False (OneOf [58, 59]) c \<longleftrightarrow> c = 58 \<or> c = 59"
  by (auto simp: lit_ok_def)

text \<open>
  White space, the two separators and the digits are disjoint classes of characters, so
  giving characters back never opens a way to match that the greedy way does not
  have: whenever the part of the pattern after the label matches at all, a digit follows
  after the skips, and conversely.
\<close>

lemma field_tail_sound:
  assumes "rmatch False (field_tail n) v g \<noteq> []"
  shows "field_follows v"
proof -
  from assms obtain x where "x \<in> set (rmatch False (field_tail n) v g)"
    by (cases "rmatch False (field_tail n) v g") auto
  then have "x \<in> set (rmatch False (Cat (ZeroOrMore Space) (Cat (Optional (OneOf [58, 59]))
      (Cat (ZeroOrMore Space) (Cat (Group n (OneOrMore Digit)) Eps)))) v g)"
    by (simp only: field_tail_def cats.simps)
  then obtain s1 g1 where s1: "(s1, g1) \<in> set (rmatch False (ZeroOrMore Space) v g)"
    and x1: "x \<in> set (rmatch False (Cat (Optional (OneOf [58, 59]))
      (Cat (ZeroOrMore Space) (Cat (Group n (OneOrMore Digit)) Eps))) s1 g1)"
    unfolding in_rmatch_Cat [of x False "ZeroOrMore Space"] by blast
  from x1 obtain s2 g2 where s2: "(s2, g2) \<in> set (rmatch False (Optional (OneOf [58, 59])) s1 g1)"
    and x2: "x \<in> set (rmatch False
      (Cat (ZeroOrMore Space) (Cat (Group n (OneOrMore Digit)) Eps)) s2 g2)"
    unfolding in_rmatch_Cat [of x False "Optional (OneOf [58, 59])"] by blast
  from x2 obtain s3 g3 where s3: "(s3, g3) \<in> set (rmatch False (ZeroOrMore Space) s2 g2)"
    and x3: "x \<in> set (rmatch False (Cat (Group n (OneOrMore Digit)) Eps) s3 g3)"
    unfolding in_rmatch_Cat [of x False "ZeroOrMore Space"] by blast
  from x3 obtain s4 g4 where "(s4, g4) \<in> set (rmatch False (Group n (OneOrMore Digit)) s3 g3)"
    unfolding in_rmatch_Cat [of x False "Group n (OneOrMore Digit)"] by blast
  then obtain s5 g5 where "(s5, g5) \<in> set (rmatch False (OneOrMore Digit) s3 g3)"
    unfolding in_rmatch_Group by blast
  then obtain c r where s3': "s3 = c # r" and dc: "is_digit c"
    unfolding in_rmatch_OneOrMore atom_ok_classes by blast
  from s1 have m1: "s1 \<in> set (repeat_greedy is_space v)"
    unfolding in_rmatch_ZeroOrMore atom_ok_classes by simp
  from s2 have m2: "s2 = s1 \<or> (\<exists>a. s1 = a # s2 \<and> (a = 58 \<or> a = 59))"
    unfolding in_rmatch_Optional colon_class by blast
  from s3 have m3: "s3 \<in> set (repeat_greedy is_space s2)"
    unfolding in_rmatch_ZeroOrMore atom_ok_classes by simp
  from dc have nsc: "\<not> is_space c" by (rule digit_not_space)
  from dc have ncol: "c \<noteq> 58 \<and> c \<noteq> 59" using colon_facts by auto
  from repeat_greedy_drop [OF m1] obtain k1 where
    k1: "s1 = drop k1 v" "\<forall>a\<in>set (take k1 v). is_space a" by blast
  from repeat_greedy_drop [OF m3] obtain k2 where
    k2: "s3 = drop k2 s2" "\<forall>a\<in>set (take k2 s2). is_space a" by blast
  from k2 s3' nsc have tail: "dropWhile is_space s2 = c # r"
    using dropWhile_reached [of k2 s2 is_space c r] by simp
  from m2 show ?thesis
  proof
    assume eq: "s2 = s1"
    have "take (k1 + k2) v = take k1 v @ take k2 (drop k1 v)"
      by (simp add: take_add)
    with k1 k2 eq have "\<forall>a\<in>set (take (k1 + k2) v). is_space a" by auto
    moreover from k1 k2 eq s3' have "drop (k1 + k2) v = c # r"
      by (simp add: add.commute)
    ultimately have "dropWhile is_space v = c # r"
      using nsc by (rule dropWhile_reached)
    with dc nsc ncol show ?thesis by (simp add: field_follows_def)
  next
    assume "\<exists>a. s1 = a # s2 \<and> (a = 58 \<or> a = 59)"
    then obtain a where a: "s1 = a # s2" "a = 58 \<or> a = 59" by blast
    then have "\<not> is_space a" using colon_facts by auto
    with k1 a have "dropWhile is_space v = a # s2"
      using dropWhile_reached [of k1 v is_space a s2] by simp
    with a tail dc show ?thesis by (auto simp: field_follows_def)
  qed
qed

lemma field_tail_complete:
  assumes "field_follows v"
  shows "rmatch False (field_tail n) v g \<noteq> []"
proof -
  define s1 where "s1 = dropWhile is_space v"
  define s2 where "s2 = (case s1 of [] \<Rightarrow> [] | c # r \<Rightarrow> if c = 58 \<or> c = 59 then r else s1)"
  define s3 where "s3 = dropWhile is_space s2"
  have "field_follows v = (case s3 of [] \<Rightarrow> False | c # r \<Rightarrow> is_digit c)"
    by (simp only: field_follows_def s1_def s2_def s3_def Let_def)
  with assms obtain c r where s3': "s3 = c # r" and dc: "is_digit c"
    by (cases s3) simp_all
  have a: "(s1, g) \<in> set (rmatch False (ZeroOrMore Space) v g)"
    unfolding in_rmatch_ZeroOrMore s1_def atom_ok_classes
    by (simp add: dropWhile_in_repeat_greedy)
  have "s2 = s1 \<or> (\<exists>a. s1 = a # s2 \<and> (a = 58 \<or> a = 59))"
    unfolding s2_def by (cases s1) simp_all
  then have b: "(s2, g) \<in> set (rmatch False (Optional (OneOf [58, 59])) s1 g)"
    unfolding in_rmatch_Optional colon_class by blast
  have c: "(s3, g) \<in> set (rmatch False (ZeroOrMore Space) s2 g)"
    unfolding in_rmatch_ZeroOrMore s3_def atom_ok_classes
    by (simp add: dropWhile_in_repeat_greedy)
  have "(dropWhile is_digit r, g) \<in> set (rmatch False (OneOrMore Digit) s3 g)"
    unfolding in_rmatch_OneOrMore atom_ok_classes using s3' dc
    by (simp add: dropWhile_in_repeat_greedy)
  then have "\<exists>y. y \<in> set (rmatch False (Group n (OneOrMore Digit)) s3 g)"
    unfolding in_rmatch_Group by blast
  then obtain s4 g4 where d: "(s4, g4) \<in> set (rmatch False (Group n (OneOrMore Digit)) s3 g)"
    by (metis surj_pair)
  have "(s4, g4) \<in> set (rmatch False (Cat (Group n (OneOrMore Digit)) Eps) s3 g)"
    unfolding in_rmatch_Cat [of _ False "Group n (OneOrMore Digit)"] in_rmatch_Eps using d by blast
  with c have "(s4, g4) \<in> set (rmatch False
      (Cat (ZeroOrMore Space) (Cat (Group n (OneOrMore Digit)) Eps)) s2 g)"
    unfolding in_rmatch_Cat [of _ False "ZeroOrMore Space"] by blast
  with b have "(s4, g4) \<in> set (rmatch False (Cat (Optional (OneOf [58, 59]))
      (Cat (ZeroOrMore Space) (Cat (Group n (OneOrMore Digit)) Eps))) s1 g)"
    unfolding in_rmatch_Cat [of _ False "Optional (OneOf [58, 59])"] by blast
  with a have "(s4, g4) \<in> set (rmatch False (Cat (ZeroOrMore Space)
      (Cat (Optional (OneOf [58, 59]))
      (Cat (ZeroOrMore Space) (Cat (Group n (OneOrMore Digit)) Eps)))) v g)"
    unfolding in_rmatch_Cat [of _ False "ZeroOrMore Space"] by blast
  then have "(s4, g4) \<in> set (rmatch False (field_tail n) v g)"
    by (simp only: field_tail_def cats.simps)
  then show ?thesis by auto
qed

lemma quantity_re_tails:
  "quantity_re = Alt (Cat (lits quantity_ar) (field_tail 1))
                     (Cat (lits (ascii ''Quantity'')) (field_tail 2))"
  by (simp add: quantity_re_def field_tail_def)

lemma rmatch_label:
  "rmatch False (Cat (lits w) r) s g =
     (if take (length w) s = w then rmatch False r (drop (length w) s) g else [])"
  by (simp add: rmatch_lits_exact)

text \<open>The pattern matches at the start of a text exactly when a quantity field begins there.\<close>

lemma match_at_quantity_re:
  "match_at False quantity_re s \<noteq> None \<longleftrightarrow> quantity_field_at s"
proof -
  have l1: "length quantity_ar = 6" by (simp add: quantity_ar_def)
  have l2: "length (ascii ''Quantity'') = 8" by (simp add: ascii_def)
  have "match_at False quantity_re s \<noteq> None \<longleftrightarrow> rmatch False quantity_re s [] \<noteq> []"
    by (simp add: match_at_def split: list.splits)
  also have "\<dots> \<longleftrightarrow>
      (take 6 s = quantity_ar \<and> rmatch False (field_tail 1) (drop 6 s) [] \<noteq> []) \<or>
      (take 8 s = ascii ''Quantity'' \<and> rmatch False (field_tail 2) (drop 8 s) [] \<noteq> [])"
    unfolding quantity_re_tails rmatch.simps(7) rmatch_label l1 l2 by auto
  also have "\<dots> \<longleftrightarrow> quantity_field_at s"
    unfolding quantity_field_at_def
    using field_tail_sound field_tail_complete by blast
  finally show ?thesis .
qed

text \<open>
  The search finds nothing exactly when no quantity field begins anywhere in the text.
\<close>

lemma re_search_None_iff:
  "re_search ic r s = None \<longleftrightarrow> (\<forall>k\<le>length s. match_at ic r (drop k s) = None)"
proof (induction s)
  case Nil
  show ?case by simp
next
  case (Cons c s)
  have "(\<forall>k\<le>length (c # s). match_at ic r (drop k (c # s)) = None) \<longleftrightarrow>
        match_at ic r (c # s) = None \<and> (\<forall>k\<le>length s. match_at ic r (drop k s) = None)"
  proof
    assume a: "\<forall>k\<le>length (c # s). match_at ic r (drop k (c # s)) = None"
    from a [rule_format, of 0] have "match_at ic r (c # s) = None" by simp
    moreover have "\<forall>k\<le>length s. match_at ic r (drop k s) = None"
    proof (intro allI impI)
      fix k assume "k \<le> length s"
      with a [rule_format, of "Suc k"] show "match_at ic r (drop k s) = None" by simp
    qed
    ultimately show "match_at ic r (c # s) = None \<and>
        (\<forall>k\<le>length s. match_at ic r (drop k s) = None)" ..
  next
    assume b: "match_at ic r (c # s) = None \<and> (\<forall>k\<le>length s. match_at ic r (drop k s) = None)"
    show "\<forall>k\<le>length (c # s). match_at ic r (drop k (c # s)) = None"
    proof (intro allI impI)
      fix k assume "k \<le> length (c # s)"
      with b show "match_at ic r (drop k (c # s)) = None"
        by (cases k) simp_all
    qed
  qed
  with Cons.IH show ?case by (auto split: option.splits)
qed

lemma quantity_absent_iff:
  "quantity_absent t \<longleftrightarrow> (\<forall>k\<le>length t. \<not> quantity_field_at (drop k t))"
  by (simp add: quantity_absent_def re_search_None_iff match_at_quantity_re [symmetric])

lemma first_plain:
  "\<forall>k<length pre. \<not> quantity_field_at (drop k t) \<Longrightarrow>
   \<forall>k<length pre. match_at False quantity_re (drop k t) = None"
  by (simp add: match_at_quantity_re [symmetric])

section \<open>The example scenario\<close>

lemma quantity_match_25:
  assumes "post = [] \<or> \<not> is_digit (hd post)"
  shows "match_at False quantity_re (quantity_ar @ ascii '': 25'' @ post) = Some [(1, [50, 53])]"
proof (cases post)
  case Nil
  then show ?thesis
    by (simp add: quantity_re_def quantity_ar_def ascii_def match_at_def lit_ok_def
        is_space_simps is_digit_simps)
next
  case (Cons c r)
  with assms have "\<not> is_digit c" by simp
  with Cons show ?thesis
    by (simp add: quantity_re_def quantity_ar_def ascii_def match_at_def lit_ok_def
        is_space_simps is_digit_simps)
qed

lemma extract_first_field_25:
  assumes t: "t = pre @ quantity_ar @ ascii '': 25'' @ post"
    and first: "\<forall>k<length pre. match_at False quantity_re (drop k t) = None"
    and stop: "post = [] \<or> \<not> is_digit (hd post)"
  shows "extract_quantity t = Inr 25"
proof -
  from first t have "re_search False quantity_re t =
      re_search False quantity_re (quantity_ar @ ascii '': 25'' @ post)"
    using re_search_skip [of pre False quantity_re "quantity_ar @ ascii '': 25'' @ post"]
    by simp
  also have "\<dots> = Some [(1, [50, 53])]"
    by (rule re_search_match_at) (rule quantity_match_25 [OF stop])
  finally show ?thesis
    by (simp add: extract_quantity_def group_def py_int_25)
qed

lemma single_file_tables:
  assumes "process_pages doc [] = Inr [\<lparr>item_name = p, quantity = q\<rparr>]"
  shows "consolidated_en_items
           (aggregate (fst (process_files clock 0
              [\<lparr>file_name = n, fitz_open = Inr doc\<rparr>] ([], [])))) =
           [\<lparr>Total_Item = p, Total_Quantity = q\<rparr>] \<and>
         hospital_dist_item_totals
           (aggregate (fst (process_files clock 0
              [\<lparr>file_name = n, fitz_open = Inr doc\<rparr>] ([], [])))) =
           [\<lparr>Total_Item = p, Total_Quantity = q\<rparr>,
            \<lparr>Total_Item = ''GRAND TOTAL'', Total_Quantity = q\<rparr>] \<and>
         aggregated_data (run clock [\<lparr>file_name = n, fitz_open = Inr doc\<rparr>] st) =
           Some (aggregate (fst (process_files clock 0
              [\<lparr>file_name = n, fitz_open = Inr doc\<rparr>] ([], []))))"
  using assms
  by (simp add: process_pdf_def aggregate_def table_def run_def any_data_def
      del: process_pages.simps)

text \<open>
  C5, as amended. A one-page document whose page text contains the Arabic name of
  NeoMune and the Arabic quantity label followed by \<open>: 25\<close>, where this field is the
  first quantity field of the page (no quantity field, under either label, begins at a
  position before it) and no further digit follows the 25, produces exactly the line
  item NeoMune with quantity 25, and the batch of this document alone produces the
  consolidated items NeoMune 25 and the item totals NeoMune 25, GRAND TOTAL 25.
\<close>

theorem neomune_25_scenario:
  assumes t: "t = pre @ quantity_ar @ ascii '': 25'' @ post"
    and first: "\<forall>k<length pre. \<not> quantity_field_at (drop k t)"
    and stop: "post = [] \<or> \<not> is_digit (hd post)"
    and neo: "t = u @ neomune_ar @ v"
  shows "process_pages [Page (Inr t)] [] = Inr [\<lparr>item_name = ''NeoMune'', quantity = 25\<rparr>] \<and>
         consolidated_en_items
           (aggregate (fst (process_files clock 0
              [\<lparr>file_name = n, fitz_open = Inr [Page (Inr t)]\<rparr>] ([], [])))) =
           [\<lparr>Total_Item = ''NeoMune'', Total_Quantity = 25\<rparr>] \<and>
         hospital_dist_item_totals
           (aggregate (fst (process_files clock 0
              [\<lparr>file_name = n, fitz_open = Inr [Page (Inr t)]\<rparr>] ([], [])))) =
           [\<lparr>Total_Item = ''NeoMune'', Total_Quantity = 25\<rparr>,
            \<lparr>Total_Item = ''GRAND TOTAL'', Total_Quantity = 25\<rparr>] \<and>
         aggregated_data (run clock [\<lparr>file_name = n, fitz_open = Inr [Page (Inr t)]\<rparr>] st) =
           Some (aggregate (fst (process_files clock 0
              [\<lparr>file_name = n, fitz_open = Inr [Page (Inr t)]\<rparr>] ([], []))))"
proof -
  have q: "extract_quantity t = Inr 25"
    by (rule extract_first_field_25 [OF t first_plain [OF first] stop])
  have p: "identify_product t = Some ''NeoMune''"
    unfolding neo by (rule identify_NeoMune)
  have items: "process_pages [Page (Inr t)] [] = Inr [\<lparr>item_name = ''NeoMune'', quantity = 25\<rparr>]"
    using process_pages_one [OF p _ q, of "[]"] by (simp add: py_or_def)
  from single_file_tables [OF items, of clock n st] items show ?thesis
    by simp
qed

lemma example_first_field:
  "\<forall>k<length (neomune_ar @ [10]). match_at False quantity_re (drop k example_text) = None"
proof (intro allI impI)
  fix k assume "k < length (neomune_ar @ [10])"
  then have "k < 8" by (simp add: neomune_ar_def)
  then consider "k = 0" | "k = 1" | "k = 2" | "k = 3" | "k = 4" | "k = 5" | "k = 6" | "k = 7"
    by linarith
  then show "match_at False quantity_re (drop k example_text) = None"
    by cases (simp_all add: text_defs search_defs)
qed

text \<open>The page that has the name on its first line and the field on its second.\<close>

theorem neomune_25_scenario_witness:
  "process_pages [Page (Inr example_text)] [] = Inr [\<lparr>item_name = ''NeoMune'', quantity = 25\<rparr>] \<and>
   consolidated_en_items
     (aggregate (fst (process_files noon 0
        [\<lparr>file_name = ''po1.pdf'', fitz_open = Inr [Page (Inr example_text)]\<rparr>] ([], [])))) =
     [\<lparr>Total_Item = ''NeoMune'', Total_Quantity = 25\<rparr>] \<and>
   hospital_dist_item_totals
     (aggregate (fst (process_files noon 0
        [\<lparr>file_name = ''po1.pdf'', fitz_open = Inr [Page (Inr example_text)]\<rparr>] ([], [])))) =
     [\<lparr>Total_Item = ''NeoMune'', Total_Quantity = 25\<rparr>,
      \<lparr>Total_Item = ''GRAND TOTAL'', Total_Quantity = 25\<rparr>] \<and>
   aggregated_data
     (run noon [\<lparr>file_name = ''po1.pdf'', fitz_open = Inr [Page (Inr example_text)]\<rparr>]
        initial_session) =
     Some (aggregate (fst (process_files noon 0
        [\<lparr>file_name = ''po1.pdf'', fitz_open = Inr [Page (Inr example_text)]\<rparr>] ([], []))))"
proof (rule neomune_25_scenario [where pre = "neomune_ar @ [10]" and post = "[]" and u = "[]"
      and v = "[10] @ quantity_ar @ ascii '': 25''"])
  show "example_text = (neomune_ar @ [10]) @ quantity_ar @ ascii '': 25'' @ []"
    by (simp add: example_text_def)
  show "\<forall>k<length (neomune_ar @ [10]). \<not> quantity_field_at (drop k example_text)"
    using example_first_field by (simp add: match_at_quantity_re [symmetric])
  show "[] = [] \<or> \<not> is_digit (hd [])" by simp
  show "example_text = [] @ neomune_ar @ [10] @ quantity_ar @ ascii '': 25''"
    by (simp add: example_text_def)
qed

text \<open>
  The claim as stated fails on pages that contain both the name and the field
  \<open>: 25\<close>. On a page with the field \<open>: 3\<close> on a line before the name, the search
  finds that field first and the item is NeoMune 3. On a page whose field reads
  \<open>: 250\<close>, which contains \<open>: 25\<close>, the digits are taken to their end and the item is
  NeoMune 250.
\<close>

theorem contains_both_counterexample:
  "earlier_field_text =
     (quantity_ar @ ascii '': 3'' @ [10]) @ neomune_ar @ [10] @ quantity_ar @ ascii '': 25'' \<and>
   process_pages [Page (Inr earlier_field_text)] [] =
     Inr [\<lparr>item_name = ''NeoMune'', quantity = 3\<rparr>] \<and>
   longer_number_text = neomune_ar @ [10] @ (quantity_ar @ ascii '': 25'') @ ascii ''0'' \<and>
   process_pages [Page (Inr longer_number_text)] [] =
     Inr [\<lparr>item_name = ''NeoMune'', quantity = 250\<rparr>]"
proof -
  have i1: "identify_product earlier_field_text = Some ''NeoMune''"
    using identify_NeoMune [of "quantity_ar @ ascii '': 3'' @ [10]"
        "[10] @ quantity_ar @ ascii '': 25''"]
    by (simp add: earlier_field_text_def)
  have s1: "re_search False quantity_re earlier_field_text = Some [(1, [51])]"
    by (simp add: text_defs search_defs)
  have q1: "extract_quantity earlier_field_text = Inr 3"
    by (simp add: extract_quantity_def s1 group_def py_int_def is_digit_simps
        int_max_str_digits_def digits_value_def digit_value_simps)
  have i2: "identify_product longer_number_text = Some ''NeoMune''"
    using identify_NeoMune [of "[]" "[10] @ quantity_ar @ ascii '': 250''"]
    by (simp add: longer_number_text_def)
  have s2: "re_search False quantity_re longer_number_text = Some [(1, [50, 53, 48])]"
    by (simp add: text_defs search_defs)
  have q2: "extract_quantity longer_number_text = Inr 250"
    by (simp add: extract_quantity_def s2 group_def py_int_def is_digit_simps
        int_max_str_digits_def digits_value_def digit_value_simps)
  have "process_pages [Page (Inr earlier_field_text)] [] =
      Inr [\<lparr>item_name = ''NeoMune'', quantity = 3\<rparr>]"
    by (simp add: extract_text_def i1 q1 py_or_def)
  moreover have "process_pages [Page (Inr longer_number_text)] [] =
      Inr [\<lparr>item_name = ''NeoMune'', quantity = 250\<rparr>]"
    by (simp add: extract_text_def i2 q2 py_or_def)
  ultimately show ?thesis
    by (simp add: earlier_field_text_def longer_number_text_def ascii_def)
qed

end
